theory Spec2Isabelle
  imports Complex_Main "HOL-Library.Log_Nat"
begin

section \<open>Python values used by \<open>PPTXConverter\<close>\<close>

subsection \<open>Strings\<close>

text \<open>
  A Python \<open>str\<close> is a sequence of Unicode code points, so slide text, paths and the
  Markdown buffer are lists of code points. \<open>str\<close> turns an ASCII literal into one;
  the code point 10 is the line feed written \<open>\n\<close> in the source.
\<close>

type_synonym pystr = "int list"

definition str :: "string \<Rightarrow> pystr" where
  "str s = map of_char s"

text \<open>\<open>str.isspace\<close> for one code point: the white space table of CPython.\<close>

definition isspace :: "int \<Rightarrow> bool" where
  "isspace c \<longleftrightarrow>
     (9 \<le> c \<and> c \<le> 13) \<or> (28 \<le> c \<and> c \<le> 32) \<or> c = 133 \<or> c = 160 \<or> c = 5760 \<or>
     (8192 \<le> c \<and> c \<le> 8202) \<or> c = 8232 \<or> c = 8233 \<or> c = 8239 \<or> c = 8287 \<or> c = 12288"

text \<open>\<open>s.strip()\<close>: white space removed at both ends.\<close>

definition strip :: "pystr \<Rightarrow> pystr" where
  "strip s = rev (dropWhile isspace (rev (dropWhile isspace s)))"

text \<open>\<open>str(n)\<close> of a non-negative integer, as the f-string \<open>{i+1}\<close> renders it.\<close>

fun str_of_nat :: "nat \<Rightarrow> pystr" where
  "str_of_nat n =
     (if n < 10 then [48 + int n] else str_of_nat (n div 10) @ [48 + int (n mod 10)])"

declare str_of_nat.simps [simp del]

subsection \<open>Paths\<close>

text \<open>
  \<open>os.path.basename\<close> and \<open>os.path.splitext\<close> of \<open>posixpath\<close>: the separator is
  \<open>/\<close> (47), the extension starts at the last \<open>.\<close> (46) of the base name unless only dots
  come before it.
\<close>

definition basename :: "pystr \<Rightarrow> pystr" where
  "basename p = rev (takeWhile (\<lambda>c. c \<noteq> 47) (rev p))"

definition splitext :: "pystr \<Rightarrow> pystr \<times> pystr" where
  "splitext p =
     (let name = basename p;
          ext = rev (takeWhile (\<lambda>c. c \<noteq> 46) (rev name));
          stem = take (length name - length ext - 1) name
      in if 46 \<in> set name \<and> filter (\<lambda>c. c \<noteq> 46) stem \<noteq> []
         then (take (length p - length ext - 1) p, 46 # ext)
         else (p, []))"

subsection \<open>Floating point\<close>

text \<open>
  \<open>i / total_slides\<close> is Python's true division of two integers: the exact quotient
  rounded to the nearest binary64 number, ties to even. The product with \<open>100\<close> is
  rounded the same way. A binary64 number is modelled by the rational it stands for;
  \<open>fl_round\<close> rounds a non-negative rational to 53 significant bits (to a multiple of
  \<open>2 powi (- 1074)\<close> in the subnormal range). The values of this program never exceed
  100, so overflow does not occur.
\<close>

definition round_half_even :: "rat \<Rightarrow> int" where
  "round_half_even x =
     (let f = \<lfloor>x\<rfloor>; r = x - of_int f
      in if r < 1 / 2 then f else if 1 / 2 < r then f + 1 else if even f then f else f + 1)"

text \<open>The exponent \<open>e\<close> with \<open>2 powi e \<le> q < 2 powi (e + 1)\<close>, for \<open>q > 0\<close>.\<close>

definition binade :: "rat \<Rightarrow> int" where
  "binade q =
     (let (a, b) = quotient_of q; d = bitlen a - bitlen b
      in if 2 powi d \<le> q then d else d - 1)"

definition fl_round :: "rat \<Rightarrow> rat" where
  "fl_round q =
     (if q = 0 then 0
      else let u = 2 powi (max (binade q) (- 1022) - 52)
           in of_int (round_half_even (q / u)) * u)"

datatype error =
    PresentationError pystr
  | AttributeError
  | ZeroDivisionError
  | WriteError pystr

definition py_truediv :: "nat \<Rightarrow> nat \<Rightarrow> error + rat" where
  "py_truediv i n = (if n = 0 then Inl ZeroDivisionError else Inr (fl_round (of_nat i / of_nat n)))"

definition float_mul :: "rat \<Rightarrow> rat \<Rightarrow> rat" where
  "float_mul x y = fl_round (x * y)"

text \<open>\<open>int(x)\<close> of a float truncates towards zero.\<close>

definition py_int :: "rat \<Rightarrow> int" where
  "py_int x = (if 0 \<le> x then \<lfloor>x\<rfloor> else \<lceil>x\<rceil>)"

section \<open>The deck as \<open>python-pptx\<close> presents it\<close>

text \<open>
  A shape is a proxy of one XML element. \<open>hasattr(shape, "text")\<close> holds when the
  field \<open>shape_text\<close> (the attribute \<open>text\<close>) is \<open>Some\<close>. Two shapes are equal when they proxy the same element,
  whatever their text: \<open>shape != slide.shapes.title\<close> compares the elements, and every
  shape differs from \<open>None\<close>.
\<close>

record shape =
  element :: nat
  shape_text :: "pystr option"

record slide =
  title :: "shape option"
  shapes :: "shape list"

definition shape_ne :: "shape \<Rightarrow> shape option \<Rightarrow> bool" where
  "shape_ne s t = (case t of None \<Rightarrow> True | Some t' \<Rightarrow> element s \<noteq> element t')"

section \<open>\<open>PPTXConverter\<close>\<close>

text \<open>
  The converter holds the two paths. What happens outside the program is a parameter:
  \<open>Presentation\<close> gives, for a path, the deck or the message of the exception raised;
  \<open>open_write\<close> gives, for a path and the text written, \<open>None\<close> when the file was
  written and the message of the exception otherwise.
\<close>

record converter =
  pptx_path :: pystr
  output_path :: pystr

record env =
  Presentation :: "pystr \<Rightarrow> pystr + slide list"
  open_write :: "pystr \<Rightarrow> pystr \<Rightarrow> pystr option"

text \<open>\<open>__init__\<close>: \<open>output_path or os.path.splitext(pptx_path)[0] + '.md'\<close>.\<close>

definition init :: "pystr \<Rightarrow> pystr option \<Rightarrow> converter" where
  "init src dst =
     \<lparr>pptx_path = src,
      output_path =
        (case dst of
           None \<Rightarrow> fst (splitext src) @ str ''.md''
         | Some p \<Rightarrow> if p = [] then fst (splitext src) @ str ''.md'' else p)\<rparr>"

text \<open>
  What a run does that can be seen from outside, in the order it is done: the three
  signals and the write of the Markdown file.
\<close>

datatype effect =
    progress_signal int
  | file_write pystr pystr
  | finished_signal pystr
  | error_signal error

text \<open>\<open>int((i / total_slides) * 100)\<close>\<close>

definition progress_percent :: "nat \<Rightarrow> nat \<Rightarrow> error + int" where
  "progress_percent i total_slides =
     (case py_truediv i total_slides of
        Inl e \<Rightarrow> Inl e
      | Inr x \<Rightarrow> Inr (py_int (float_mul x 100)))"

text \<open>
  The heading of slide \<open>i\<close>. \<open>if slide.shapes.title:\<close> tests that there is a title
  placeholder; reading \<open>.text\<close> of one that has no such attribute raises.
\<close>

definition slide_heading :: "nat \<Rightarrow> slide \<Rightarrow> error + pystr" where
  "slide_heading i s =
     (case title s of
        Some t \<Rightarrow>
          (case shape_text t of
             None \<Rightarrow> Inl AttributeError
           | Some tx \<Rightarrow> Inr (str ''## '' @ tx @ [10, 10]))
      | None \<Rightarrow> Inr (str ''## Slide '' @ str_of_nat (i + 1) @ [10, 10]))"

text \<open>The loop over the shapes of one slide, \<open>md\<close> being \<open>md_content\<close>.\<close>

fun shapes_loop :: "shape option \<Rightarrow> shape list \<Rightarrow> pystr \<Rightarrow> pystr" where
  "shapes_loop t [] md = md"
| "shapes_loop t (s # ss) md =
     shapes_loop t ss
       (case shape_text s of
          None \<Rightarrow> md
        | Some tx \<Rightarrow> if strip tx \<noteq> [] \<and> shape_ne s t then md @ tx @ [10, 10] else md)"

text \<open>
  The loop over the slides from index \<open>i\<close> on. It returns the signals emitted and
  either the exception that ended it or the buffer.
\<close>

fun slides_loop :: "nat \<Rightarrow> nat \<Rightarrow> slide list \<Rightarrow> pystr \<Rightarrow> effect list \<times> (error + pystr)" where
  "slides_loop total_slides i [] md = ([], Inr md)"
| "slides_loop total_slides i (s # rest) md =
     (case progress_percent i total_slides of
        Inl e \<Rightarrow> ([], Inl e)
      | Inr p \<Rightarrow>
          (case slide_heading i s of
             Inl e \<Rightarrow> ([progress_signal p], Inl e)
           | Inr h \<Rightarrow>
               (case slides_loop total_slides (i + 1) rest
                       (shapes_loop (title s) (shapes s) (md @ h) @ str ''---'' @ [10, 10]) of
                  (evs, r) \<Rightarrow> (progress_signal p # evs, r))))"

definition run :: "env \<Rightarrow> converter \<Rightarrow> effect list" where
  "run ev c =
     (case Presentation ev (pptx_path c) of
        Inl m \<Rightarrow> [error_signal (PresentationError m)]
      | Inr prs \<Rightarrow>
          (case slides_loop (length prs) 0 prs (str ''# '' @ basename (pptx_path c) @ [10, 10]) of
             (evs, Inl e) \<Rightarrow> evs @ [error_signal e]
           | (evs, Inr md_content) \<Rightarrow>
               (case open_write ev (output_path c) md_content of
                  Some m \<Rightarrow> evs @ [error_signal (WriteError m)]
                | None \<Rightarrow>
                    evs @ [file_write (output_path c) md_content,
                           progress_signal 100,
                           finished_signal (output_path c)])))"

section \<open>Notions the properties are stated with\<close>

subsection \<open>Traces\<close>

definition is_terminal :: "effect \<Rightarrow> bool" where
  "is_terminal e = (case e of finished_signal _ \<Rightarrow> True | error_signal _ \<Rightarrow> True | _ \<Rightarrow> False)"

definition is_progress :: "effect \<Rightarrow> bool" where
  "is_progress e = (case e of progress_signal _ \<Rightarrow> True | _ \<Rightarrow> False)"

text \<open>The progress values of a trace and the documents it wrote, in order.\<close>

definition progress_values :: "effect list \<Rightarrow> int list" where
  "progress_values tr = concat (map (\<lambda>e. case e of progress_signal p \<Rightarrow> [p] | _ \<Rightarrow> []) tr)"

definition written :: "effect list \<Rightarrow> pystr list" where
  "written tr = concat (map (\<lambda>e. case e of file_write p doc \<Rightarrow> [doc] | _ \<Rightarrow> []) tr)"

text \<open>The value \<open>progress_percent\<close> returns when the deck is not empty.\<close>

definition percent :: "nat \<Rightarrow> nat \<Rightarrow> int" where
  "percent i n = py_int (float_mul (fl_round (of_nat i / of_nat n)) 100)"

text \<open>The exponent of the unit in the last place that \<open>fl_round\<close> rounds to.\<close>

definition ulp_exp :: "rat \<Rightarrow> int" where
  "ulp_exp q = max (binade q) (- 1022)"

subsection \<open>The parts of the document\<close>

text \<open>A paragraph: the text and a blank line.\<close>

definition para :: "pystr \<Rightarrow> pystr" where
  "para b = b @ [10, 10]"

definition header :: "converter \<Rightarrow> pystr" where
  "header c = para (str ''# '' @ basename (pptx_path c))"

text \<open>
  A shape contributes a block when it has text, the text is not blank and the shape is
  not the title shape. \<open>appended_blocks\<close> are the texts of the contributing shapes as
  they stand; \<open>spec_contentBlocks\<close> are the blocks as the specification words them,
  trimmed.
\<close>

definition contributes :: "shape option \<Rightarrow> shape \<Rightarrow> bool" where
  "contributes t s =
     (case shape_text s of None \<Rightarrow> False | Some tx \<Rightarrow> strip tx \<noteq> [] \<and> shape_ne s t)"

definition appended_blocks :: "shape option \<Rightarrow> shape list \<Rightarrow> pystr list" where
  "appended_blocks t ss = map (\<lambda>s. the (shape_text s)) (filter (contributes t) ss)"

definition spec_contentBlocks :: "shape option \<Rightarrow> shape list \<Rightarrow> pystr list" where
  "spec_contentBlocks t ss = map (\<lambda>s. strip (the (shape_text s))) (filter (contributes t) ss)"

text \<open>The title placeholder, when there is one, has the attribute \<open>text\<close>.\<close>

definition readable_title :: "slide \<Rightarrow> bool" where
  "readable_title s = (case title s of None \<Rightarrow> True | Some t \<Rightarrow> shape_text t \<noteq> None)"

definition heading_text :: "nat \<Rightarrow> slide \<Rightarrow> pystr" where
  "heading_text i s =
     (case title s of
        Some t \<Rightarrow> (case shape_text t of Some tx \<Rightarrow> tx | None \<Rightarrow> [])
      | None \<Rightarrow> str ''Slide '' @ str_of_nat (i + 1))"

definition slide_section :: "nat \<Rightarrow> slide \<Rightarrow> pystr" where
  "slide_section i s =
     para (str ''## '' @ heading_text i s) @
     concat (map para (appended_blocks (title s) (shapes s))) @
     para (str ''---'')"

definition document :: "converter \<Rightarrow> slide list \<Rightarrow> pystr" where
  "document c prs = header c @ concat (map (\<lambda>(i, s). slide_section i s) (enumerate 0 prs))"

subsection \<open>Lines of the document\<close>

text \<open>
  The lines of a text, as \<open>split('\n')\<close> gives them. A level-2 heading is a line that
  starts with \<open>## \<close>, a horizontal rule a line that is \<open>---\<close>. A text is plain when
  none of its own lines is one or the other.
\<close>

fun md_lines :: "pystr \<Rightarrow> pystr list" where
  "md_lines [] = [[]]"
| "md_lines (c # cs) =
     (if c = 10 then [] # md_lines cs
      else (case md_lines cs of [] \<Rightarrow> [[c]] | l # ls \<Rightarrow> (c # l) # ls))"

definition is_h2 :: "pystr \<Rightarrow> bool" where
  "is_h2 l = (take 3 l = str ''## '')"

definition is_hr :: "pystr \<Rightarrow> bool" where
  "is_hr l = (l = str ''---'')"

definition count_lines :: "(pystr \<Rightarrow> bool) \<Rightarrow> pystr \<Rightarrow> nat" where
  "count_lines P doc = length (filter P (md_lines doc))"

definition count_h2 :: "pystr \<Rightarrow> nat" where
  "count_h2 doc = count_lines is_h2 doc"

definition count_hr :: "pystr \<Rightarrow> nat" where
  "count_hr doc = count_lines is_hr doc"

definition plain :: "pystr \<Rightarrow> bool" where
  "plain x = list_all (\<lambda>l. \<not> is_h2 l \<and> \<not> is_hr l) (md_lines x)"

definition plain_slide :: "slide \<Rightarrow> bool" where
  "plain_slide s =
     ((case title s of
         Some t \<Rightarrow> (case shape_text t of Some tx \<Rightarrow> plain tx | None \<Rightarrow> True)
       | None \<Rightarrow> True) \<and>
      list_all plain (appended_blocks (title s) (shapes s)))"

subsection \<open>Decks and surroundings to run the converter on\<close>

definition text_shape :: "nat \<Rightarrow> string \<Rightarrow> shape" where
  "text_shape k s = \<lparr>element = k, shape_text = Some (str s)\<rparr>"

definition picture :: "nat \<Rightarrow> shape" where
  "picture k = \<lparr>element = k, shape_text = None\<rparr>"

text \<open>The deck of three slides of the specification's round-trip scenario.\<close>

definition deck3 :: "slide list" where
  "deck3 =
     [\<lparr>title = Some (text_shape 0 ''Intro''),
       shapes = [text_shape 0 ''Intro'', text_shape 1 ''Welcome'']\<rparr>,
      \<lparr>title = None,
       shapes = [text_shape 2 ''Point A'', picture 3, text_shape 4 ''Point B'']\<rparr>,
      \<lparr>title = Some (text_shape 5 ''Conclusion''), shapes = [text_shape 5 ''Conclusion'']\<rparr>]"

text \<open>
  One-slide decks: a text box that holds the line \<open>---\<close>; a title and a text box
  with blanks around their text; a title placeholder left empty; a text box that repeats
  the title's text.
\<close>

definition rule_deck :: "slide list" where
  "rule_deck = [\<lparr>title = None, shapes = [text_shape 1 ''---'']\<rparr>]"

definition padded_deck :: "slide list" where
  "padded_deck =
     [\<lparr>title = Some (text_shape 0 '' Intro ''),
       shapes = [text_shape 0 '' Intro '', text_shape 1 ''  Welcome '']\<rparr>]"

definition empty_title_deck :: "slide list" where
  "empty_title_deck = [\<lparr>title = Some (text_shape 0 []), shapes = [text_shape 0 []]\<rparr>]"

definition echo_slide :: slide where
  "echo_slide =
     \<lparr>title = Some (text_shape 0 ''Intro''),
      shapes = [text_shape 0 ''Intro'', picture 1, text_shape 2 ''Intro'']\<rparr>"

text \<open>A deck of \<open>n\<close> slides that have no shapes.\<close>

definition blank_deck :: "nat \<Rightarrow> slide list" where
  "blank_deck n = replicate n \<lparr>title = None, shapes = []\<rparr>"

text \<open>
  Surroundings in which every path opens as the deck \<open>d\<close>: with a disk that takes every
  write, and with one that refuses every write.
\<close>

definition writable_env :: "slide list \<Rightarrow> env" where
  "writable_env d = \<lparr>Presentation = (\<lambda>p. Inr d), open_write = (\<lambda>p doc. None)\<rparr>"

definition readonly_env :: "slide list \<Rightarrow> env" where
  "readonly_env d =
     \<lparr>Presentation = (\<lambda>p. Inr d), open_write = (\<lambda>p doc. Some (str ''Permission denied''))\<rparr>"

text \<open>Surroundings in which no path opens as a deck.\<close>

definition no_deck_env :: env where
  "no_deck_env =
     \<lparr>Presentation = (\<lambda>p. Inl (str ''Package not found'')), open_write = (\<lambda>p doc. None)\<rparr>"

text \<open>The same source converted to the default destination and to another one.\<close>

definition deck_pptx :: converter where
  "deck_pptx = init (str ''/home/u/deck.pptx'') None"

definition deck_pptx_to_tmp :: converter where
  "deck_pptx_to_tmp = init (str ''/home/u/deck.pptx'') (Some (str ''/tmp/out.md''))"

section \<open>Rounding to binary64\<close>

lemma round_half_even_bounds: "\<lfloor>x\<rfloor> \<le> round_half_even x \<and> round_half_even x \<le> \<lfloor>x\<rfloor> + 1"
  by (simp add: round_half_even_def Let_def)

lemma round_half_even_of_int: "round_half_even (of_int k) = k"
  by (simp add: round_half_even_def Let_def)

lemma round_half_even_mono:
  assumes "x \<le> y"
  shows "round_half_even x \<le> round_half_even y"
proof (cases "\<lfloor>x\<rfloor> = \<lfloor>y\<rfloor>")
  case True
  with assms show ?thesis
    by (auto simp: round_half_even_def Let_def)
next
  case False
  with assms have "\<lfloor>x\<rfloor> + 1 \<le> \<lfloor>y\<rfloor>"
    using floor_mono [of x y] by linarith
  then show ?thesis
    using round_half_even_bounds [of x] round_half_even_bounds [of y] by linarith
qed

lemma pow2_nat: "0 \<le> k \<Longrightarrow> (of_int (2 ^ nat k) :: rat) = 2 powi k"
  by (simp add: power_int_nonneg_exp)

lemma bitlen_pos: "0 < a \<Longrightarrow> 1 \<le> bitlen a"
  using bitlen_eq_zero_iff [of a] bitlen_nonneg [of a] by linarith

lemma of_int_bitlen_bounds:
  assumes "0 < a"
  shows "2 powi (bitlen a - 1) \<le> (of_int a :: rat)" and "(of_int a :: rat) < 2 powi bitlen a"
proof -
  have l: "1 \<le> bitlen a" using assms by (rule bitlen_pos)
  have e1: "(2::rat) powi (bitlen a - 1) = of_int (2 ^ nat (bitlen a - 1))"
    using l by (simp add: power_int_nonneg_exp)
  have e2: "(2::rat) powi bitlen a = of_int (2 ^ nat (bitlen a))"
    using l by (simp add: power_int_nonneg_exp)
  show "2 powi (bitlen a - 1) \<le> (of_int a :: rat)"
    unfolding e1 using bitlen_bounds [OF assms] by (simp only: of_int_le_iff)
  show "(of_int a :: rat) < 2 powi bitlen a"
    unfolding e2 using bitlen_bounds [OF assms] by (simp only: of_int_less_iff)
qed

lemma binade_bounds:
  assumes "0 < q"
  shows "2 powi binade q \<le> q" and "q < 2 powi (binade q + 1)"
proof -
  obtain a b where ab: "quotient_of q = (a, b)" by (cases "quotient_of q")
  have b: "0 < b" using ab by (rule quotient_of_denom_pos)
  have q: "q = of_int a / of_int b" using ab by (rule quotient_of_div)
  have a: "0 < a" using assms b q by (simp add: zero_less_divide_iff)
  define d where "d = bitlen a - bitlen b"
  have up: "q < 2 powi (d + 1)"
  proof -
    have "q < 2 powi bitlen a / of_int b"
      unfolding q using of_int_bitlen_bounds(2) [OF a] b by (simp add: divide_strict_right_mono)
    also have "\<dots> \<le> 2 powi bitlen a / 2 powi (bitlen b - 1)"
      using of_int_bitlen_bounds(1) [OF b] by (simp add: frac_le)
    also have "\<dots> = 2 powi (d + 1)"
      by (simp add: d_def power_int_diff [symmetric] algebra_simps)
    finally show ?thesis .
  qed
  have lo: "2 powi (d - 1) \<le> q"
  proof -
    have "2 powi (d - 1) = 2 powi (bitlen a - 1) / (2 powi bitlen b :: rat)"
      by (simp add: d_def power_int_diff [symmetric] algebra_simps)
    also have "\<dots> \<le> of_int a / 2 powi bitlen b"
      using of_int_bitlen_bounds(1) [OF a] by (simp add: divide_right_mono)
    also have "\<dots> \<le> of_int a / of_int b"
      using of_int_bitlen_bounds(2) [OF b] a b by (simp add: frac_le)
    finally show ?thesis by (simp add: q)
  qed
  have e: "binade q = (if 2 powi d \<le> q then d else d - 1)"
    by (simp add: binade_def ab d_def Let_def)
  show "2 powi binade q \<le> q" using lo by (simp add: e)
  show "q < 2 powi (binade q + 1)" using up by (auto simp: e)
qed

lemma binade_mono:
  assumes "0 < x" "x \<le> y"
  shows "binade x \<le> binade y"
proof (rule ccontr)
  assume "\<not> binade x \<le> binade y"
  then have "binade y + 1 \<le> binade x" by simp
  then have "(2::rat) powi (binade y + 1) \<le> 2 powi binade x"
    by (simp add: power_int_increasing)
  also have "\<dots> \<le> x" using assms(1) by (rule binade_bounds)
  finally show False using binade_bounds(2) [of y] assms by simp
qed



lemma fl_round_pos: "q \<noteq> 0 \<Longrightarrow>
  fl_round q = of_int (round_half_even (q / 2 powi (ulp_exp q - 52))) * 2 powi (ulp_exp q - 52)"
  by (simp add: fl_round_def Let_def ulp_exp_def)

lemma fl_round_upper:
  assumes "0 < q"
  shows "fl_round q \<le> 2 powi (ulp_exp q + 1)"
proof -
  define u :: rat where "u = 2 powi (ulp_exp q - 52)"
  have u: "0 < u" by (simp add: u_def)
  have "q < 2 powi (binade q + 1)" using assms by (rule binade_bounds)
  also have "\<dots> \<le> 2 powi (ulp_exp q + 1)"
    by (simp add: ulp_exp_def power_int_increasing)
  also have "\<dots> = of_int (2 ^ 53) * u"
    by (simp add: u_def power_int_diff power_int_add)
  finally have "q / u \<le> of_int (2 ^ 53)"
    using u by (simp add: pos_divide_le_eq)
  then have "round_half_even (q / u) \<le> 2 ^ 53"
    using round_half_even_mono [of "q / u" "of_int (2 ^ 53)"]
    by (simp only: round_half_even_of_int)
  then have "(of_int (round_half_even (q / u)) :: rat) \<le> of_int (2 ^ 53)"
    by (simp only: of_int_le_iff)
  then have "of_int (round_half_even (q / u)) * u \<le> of_int (2 ^ 53) * u"
    using u by (simp only: mult_le_cancel_right_pos)
  also have "\<dots> = 2 powi (ulp_exp q + 1)"
    by (simp add: u_def power_int_diff power_int_add)
  finally show ?thesis
    using assms by (simp add: fl_round_pos u_def)
qed

lemma fl_round_lower:
  assumes "0 < q" "- 1022 \<le> binade q"
  shows "2 powi ulp_exp q \<le> fl_round q"
proof -
  define u :: rat where "u = 2 powi (ulp_exp q - 52)"
  have u: "0 < u" by (simp add: u_def)
  have e: "ulp_exp q = binade q" using assms(2) by (simp add: ulp_exp_def)
  have "of_int (2 ^ 52) * u = 2 powi binade q"
    by (simp add: u_def e power_int_diff)
  also have "\<dots> \<le> q" using assms(1) by (rule binade_bounds)
  finally have "of_int (2 ^ 52) \<le> q / u"
    using u by (simp add: pos_le_divide_eq)
  then have "2 ^ 52 \<le> round_half_even (q / u)"
    using round_half_even_mono [of "of_int (2 ^ 52)" "q / u"]
    by (simp only: round_half_even_of_int)
  then have "(of_int (2 ^ 52) :: rat) \<le> of_int (round_half_even (q / u))"
    by (simp only: of_int_le_iff)
  then have m: "of_int (2 ^ 52) * u \<le> of_int (round_half_even (q / u)) * u"
    using u by (simp only: mult_le_cancel_right_pos)
  have eq: "fl_round q = of_int (round_half_even (q / u)) * u"
    using assms(1) by (simp add: fl_round_pos u_def)
  have "2 powi ulp_exp q = of_int (2 ^ 52) * u"
    by (simp add: u_def power_int_diff)
  also note m
  finally show ?thesis unfolding eq .
qed

lemma fl_round_nonneg: "0 \<le> q \<Longrightarrow> 0 \<le> fl_round q"
proof (cases "q = 0")
  case True
  then show ?thesis by (simp add: fl_round_def)
next
  case False
  assume "0 \<le> q"
  then have "0 \<le> q / 2 powi (ulp_exp q - 52)" by simp
  then have "0 \<le> \<lfloor>q / 2 powi (ulp_exp q - 52)\<rfloor>" by simp
  then have "0 \<le> round_half_even (q / 2 powi (ulp_exp q - 52))"
    using round_half_even_bounds [of "q / 2 powi (ulp_exp q - 52)"] by linarith
  then show ?thesis using False by (simp add: fl_round_pos)
qed

lemma fl_round_mono:
  assumes "0 \<le> x" "x \<le> y"
  shows "fl_round x \<le> fl_round y"
proof (cases "x = 0")
  case True
  then show ?thesis using assms fl_round_nonneg [of y] by (simp add: fl_round_def)
next
  case False
  then have x: "0 < x" and y: "0 < y" using assms by simp_all
  have le: "ulp_exp x \<le> ulp_exp y"
    using binade_mono [OF x assms(2)] by (simp add: ulp_exp_def)
  show ?thesis
  proof (cases "ulp_exp x = ulp_exp y")
    case True
    have "x / 2 powi (ulp_exp y - 52) \<le> y / 2 powi (ulp_exp y - 52)"
      using assms(2) by (simp add: divide_right_mono)
    then have "round_half_even (x / 2 powi (ulp_exp y - 52))
                \<le> round_half_even (y / 2 powi (ulp_exp y - 52))"
      by (rule round_half_even_mono)
    then show ?thesis
      using x y True by (simp add: fl_round_pos)
  next
    case False
    with le have lt: "ulp_exp x + 1 \<le> ulp_exp y" by simp
    then have b: "- 1022 \<le> binade y" by (simp add: ulp_exp_def)
    have "fl_round x \<le> 2 powi (ulp_exp x + 1)" using x by (rule fl_round_upper)
    also have "\<dots> \<le> 2 powi ulp_exp y" using lt by (simp add: power_int_increasing)
    also have "\<dots> \<le> fl_round y" using y b by (rule fl_round_lower)
    finally show ?thesis .
  qed
qed


lemma fl_round_below_one: "fl_round (1 - 1 / 2 ^ 53) = 1 - 1 / 2 ^ 53"
  by code_simp

lemma fl_round_below_hundred: "fl_round ((1 - 1 / 2 ^ 53) * 100) = 100 - 1 / 2 ^ 46"
  by code_simp

lemma quotient_below_one:
  assumes "i < n" "n \<le> 2 ^ 53"
  shows "(of_nat i / of_nat n :: rat) \<le> 1 - 1 / 2 ^ 53"
proof -
  have n: "(0::rat) < of_nat n" using assms(1) by simp
  have "(of_nat i :: rat) \<le> of_nat n - 1"
    using assms(1) by (simp add: of_nat_diff flip: of_nat_Suc) 
  then have "(of_nat i / of_nat n :: rat) \<le> (of_nat n - 1) / of_nat n"
    using n by (simp add: divide_right_mono)
  also have "\<dots> = 1 - 1 / of_nat n"
    using n by (simp add: diff_divide_distrib)
  also have "\<dots> \<le> 1 - 1 / 2 ^ 53"
  proof -
    have "(of_nat n :: rat) \<le> of_nat (2 ^ 53)" using assms(2) by (simp only: of_nat_le_iff)
    then have "(1::rat) / 2 ^ 53 \<le> 1 / of_nat n" using n by (simp add: frac_le)
    then show ?thesis by simp
  qed
  finally show ?thesis .
qed

lemma py_int_mono: "0 \<le> x \<Longrightarrow> x \<le> y \<Longrightarrow> py_int x \<le> py_int y"
  by (simp add: py_int_def floor_mono)

lemma progress_percent_zero: "0 < n \<Longrightarrow> progress_percent 0 n = Inr 0"
  by (simp add: progress_percent_def py_truediv_def float_mul_def fl_round_def py_int_def)

lemma progress_percent_mono:
  assumes "i \<le> j" "0 < n"
    and "progress_percent i n = Inr p" "progress_percent j n = Inr p'"
  shows "p \<le> p'"
proof -
  have q: "(0::rat) \<le> of_nat i / of_nat n" "(of_nat i / of_nat n :: rat) \<le> of_nat j / of_nat n"
    using assms(1,2) by (simp_all add: divide_right_mono)
  have a: "0 \<le> fl_round (of_nat i / of_nat n)" using q(1) by (rule fl_round_nonneg)
  have b: "fl_round (of_nat i / of_nat n) \<le> fl_round (of_nat j / of_nat n)"
    using q by (rule fl_round_mono)
  have "fl_round (fl_round (of_nat i / of_nat n) * 100) \<le> fl_round (fl_round (of_nat j / of_nat n) * 100)"
    using a b by (intro fl_round_mono) simp_all
  moreover have "0 \<le> fl_round (fl_round (of_nat i / of_nat n) * 100)"
    using a by (intro fl_round_nonneg) simp
  ultimately have "py_int (fl_round (fl_round (of_nat i / of_nat n) * 100))
      \<le> py_int (fl_round (fl_round (of_nat j / of_nat n) * 100))"
    by (intro py_int_mono)
  then show ?thesis
    using assms(2-4) by (simp add: progress_percent_def py_truediv_def float_mul_def)
qed

lemma progress_percent_range:
  assumes "i < n" "n \<le> 2 ^ 53"
  shows "\<exists>p. progress_percent i n = Inr p \<and> 0 \<le> p \<and> p < 100"
proof -
  define x where "x = fl_round (of_nat i / of_nat n)"
  have q0: "(0::rat) \<le> of_nat i / of_nat n" by simp
  have x0: "0 \<le> x" unfolding x_def using q0 by (rule fl_round_nonneg)
  have "x \<le> fl_round (1 - 1 / 2 ^ 53)"
    unfolding x_def using q0 quotient_below_one [OF assms] by (rule fl_round_mono)
  then have x1: "x \<le> 1 - 1 / 2 ^ 53" by (simp only: fl_round_below_one)
  have y0: "0 \<le> fl_round (x * 100)" using x0 by (intro fl_round_nonneg) simp
  have "fl_round (x * 100) \<le> fl_round ((1 - 1 / 2 ^ 53) * 100)"
    using x0 x1 by (intro fl_round_mono) simp_all
  then have "fl_round (x * 100) \<le> 100 - 1 / 2 ^ 46" by (simp only: fl_round_below_hundred)
  then have "fl_round (x * 100) < 100" by simp
  then have "\<lfloor>fl_round (x * 100)\<rfloor> < 100" by (simp add: floor_less_iff)
  moreover have "0 \<le> \<lfloor>fl_round (x * 100)\<rfloor>" using y0 by simp
  ultimately show ?thesis
    using assms(1) y0
    by (simp add: progress_percent_def py_truediv_def float_mul_def py_int_def x_def)
qed

section \<open>The two loops\<close>

lemma shapes_loop_blocks:
  "shapes_loop t ss md = md @ concat (map para (appended_blocks t ss))"
  by (induction ss arbitrary: md)
     (auto simp: appended_blocks_def contributes_def para_def split: option.splits)

lemma str_append: "str (a @ b) = str a @ str b"
  by (simp add: str_def)

lemma slide_heading_text:
  "slide_heading i s = Inr h \<Longrightarrow> h = para (str ''## '' @ heading_text i s)"
  by (auto simp: slide_heading_def heading_text_def para_def str_def
           split: option.splits)

lemma slide_heading_readable:
  "readable_title s \<Longrightarrow> slide_heading i s = Inr (para (str ''## '' @ heading_text i s))"
  by (auto simp: slide_heading_def heading_text_def para_def str_def readable_title_def
           split: option.splits)

lemma progress_percent_eq:
  "progress_percent i n = (if n = 0 then Inl ZeroDivisionError else Inr (percent i n))"
  by (simp add: progress_percent_def py_truediv_def percent_def)

lemma slides_loop_document:
  "slides_loop n i ss md = (evs, Inr md') \<Longrightarrow>
   md' = md @ concat (map (\<lambda>(k, s). slide_section k s) (enumerate i ss))"
proof (induction ss arbitrary: i md evs)
  case Nil
  then show ?case by simp
next
  case (Cons s ss)
  from Cons.prems obtain p h evs' where
    h: "slide_heading i s = Inr h" and
    r: "slides_loop n (i + 1) ss (shapes_loop (title s) (shapes s) (md @ h) @ str ''---'' @ [10, 10])
          = (evs', Inr md')"
    by (auto split: sum.splits prod.splits)
  have "md' = (shapes_loop (title s) (shapes s) (md @ h) @ str ''---'' @ [10, 10]) @
     concat (map (\<lambda>(k, s). slide_section k s) (enumerate (i + 1) ss))"
    using r by (rule Cons.IH)
  then show ?case
    using slide_heading_text [OF h]
    by (simp add: shapes_loop_blocks slide_section_def para_def)
qed

lemma slides_loop_completes:
  "n \<noteq> 0 \<Longrightarrow> list_all readable_title ss \<Longrightarrow> \<exists>evs md'. slides_loop n i ss md = (evs, Inr md')"
proof (induction ss arbitrary: i md)
  case Nil
  then show ?case by simp
next
  case (Cons s ss)
  have h: "slide_heading i s = Inr (para (str ''## '' @ heading_text i s))"
    using Cons.prems(2) by (simp add: slide_heading_readable)
  obtain evs md' where
    "slides_loop n (i + 1) ss
       (shapes_loop (title s) (shapes s) (md @ para (str ''## '' @ heading_text i s)) @ str ''---'' @ [10, 10])
     = (evs, Inr md')"
    using Cons.IH [OF Cons.prems(1), of "i + 1"] Cons.prems(2) by (simp del: One_nat_def add_Suc_right) blast
  then show ?case
    using Cons.prems(1) h by (simp add: progress_percent_eq)
qed

lemma slides_loop_events:
  "slides_loop n i ss md = (evs, r) \<Longrightarrow> n \<noteq> 0 \<Longrightarrow>
   evs = map (\<lambda>k. progress_signal (percent k n)) [i..<i + length evs] \<and> length evs \<le> length ss \<and>
   (ss \<noteq> [] \<longrightarrow> evs \<noteq> []) \<and> ((\<exists>md'. r = Inr md') \<longrightarrow> length evs = length ss)"
proof (induction ss arbitrary: i md evs r)
  case Nil
  then show ?case by simp
next
  case (Cons s ss)
  show ?case
  proof (cases "slide_heading i s")
    case (Inl e)
    then show ?thesis using Cons.prems by (auto simp: progress_percent_eq)
  next
    case (Inr h)
    obtain evs' r' where
      r: "slides_loop n (i + 1) ss (shapes_loop (title s) (shapes s) (md @ h) @ str ''---'' @ [10, 10])
          = (evs', r')"
      by (cases "slides_loop n (i + 1) ss (shapes_loop (title s) (shapes s) (md @ h) @ str ''---'' @ [10, 10])")
    have e: "evs = progress_signal (percent i n) # evs'" and rr: "r = r'"
      using Cons.prems Inr r by (simp_all add: progress_percent_eq)
    have ih: "evs' = map (\<lambda>k. progress_signal (percent k n)) [i + 1..<i + 1 + length evs'] \<and>
       length evs' \<le> length ss \<and> ((\<exists>md'. r' = Inr md') \<longrightarrow> length evs' = length ss)"
      using Cons.IH [OF r Cons.prems(2)] by simp
    have "[i..<i + length evs] = i # [i + 1..<i + 1 + length evs']"
      by (subst upt_rec) (simp add: e)
    then show ?thesis using ih e rr by simp
  qed
qed

section \<open>Counting lines\<close>

lemma str_h2: "str ''## '' = [35, 35, 32]" by (simp add: str_def)
lemma str_h1: "str ''# '' = [35, 32]" by (simp add: str_def)
lemma str_hr: "str ''---'' = [45, 45, 45]" by (simp add: str_def)
lemma str_Slide: "str ''Slide '' = [83, 108, 105, 100, 101, 32]" by (simp add: str_def)

lemma md_lines_nonempty: "md_lines x \<noteq> []"
  by (cases x) (auto split: list.splits)

lemma md_lines_Cons:
  "md_lines (c # cs) =
     (if c = 10 then [] # md_lines cs else (c # hd (md_lines cs)) # tl (md_lines cs))"
  using md_lines_nonempty [of cs] by (auto split: list.splits)

declare md_lines.simps(2) [simp del]

lemma md_lines_append_nl: "md_lines (a @ 10 # b) = md_lines a @ md_lines b"
  by (induction a) (auto simp: md_lines_nonempty md_lines_Cons)

lemma md_lines_no_nl: "10 \<notin> set x \<Longrightarrow> md_lines x = [x]"
  by (induction x) (auto simp: md_lines_Cons)

lemma count_lines_append_nl:
  "count_lines P (a @ 10 # b) = count_lines P a + count_lines P b"
  by (simp add: count_lines_def md_lines_append_nl)

lemma count_lines_empty: "\<not> P [] \<Longrightarrow> count_lines P [] = 0"
  by (simp add: count_lines_def)

lemma count_lines_para:
  assumes "\<not> P []"
  shows "count_lines P (para x @ rest) = count_lines P x + count_lines P rest"
proof -
  have "count_lines P (x @ 10 # ([] @ 10 # rest))
          = count_lines P x + (count_lines P [] + count_lines P rest)"
    by (simp only: count_lines_append_nl)
  then show ?thesis using assms by (simp add: para_def count_lines_empty)
qed

lemma count_lines_paras:
  assumes "\<not> P []"
  shows "count_lines P (concat (map para xs) @ rest)
           = sum_list (map (count_lines P) xs) + count_lines P rest"
  by (induction xs) (simp_all add: count_lines_para [of P, OF assms])

lemma not_h2_empty: "\<not> is_h2 []" by (simp add: is_h2_def str_h2)
lemma not_hr_empty: "\<not> is_hr []" by (simp add: is_hr_def str_hr)

lemma plain_counts: "plain x \<Longrightarrow> count_lines is_h2 x = 0 \<and> count_lines is_hr x = 0"
  by (auto simp: plain_def count_lines_def list_all_iff filter_empty_conv)

lemma plain_tl:
  assumes "plain x"
  shows "filter is_h2 (tl (md_lines x)) = []" and "filter is_hr (tl (md_lines x)) = []"
  using assms list.set_sel(2) [OF md_lines_nonempty [of x]]
  by (auto simp: plain_def list_all_iff filter_empty_conv)

lemma heading_counts:
  assumes "plain h"
  shows "count_lines is_h2 (str ''## '' @ h) = 1" and "count_lines is_hr (str ''## '' @ h) = 0"
  using plain_tl [OF assms]
  by (simp_all add: count_lines_def str_h2 is_h2_def is_hr_def str_hr md_lines_Cons)

lemma title_counts:
  assumes "plain h"
  shows "count_lines is_h2 (str ''# '' @ h) = 0" and "count_lines is_hr (str ''# '' @ h) = 0"
  using plain_tl [OF assms]
  by (simp_all add: count_lines_def str_h1 str_h2 is_h2_def is_hr_def str_hr md_lines_Cons)

lemma rule_counts: "count_lines is_h2 (str ''---'') = 0" "count_lines is_hr (str ''---'') = 1"
  by (simp_all add: count_lines_def str_h2 is_h2_def is_hr_def str_hr md_lines_Cons)

lemma str_of_nat_digits: "c \<in> set (str_of_nat n) \<Longrightarrow> 48 \<le> c \<and> c \<le> 57"
proof (induction n rule: str_of_nat.induct)
  case (1 n)
  show ?case
  proof (cases "n < 10")
    case True
    then show ?thesis using "1.prems" by (subst (asm) str_of_nat.simps) auto
  next
    case False
    have "c \<in> set (str_of_nat (n div 10)) \<or> c = 48 + int (n mod 10)"
      using "1.prems" False by (subst (asm) str_of_nat.simps) auto
    then show ?thesis using "1.IH" False by auto
  qed
qed

lemma plain_fallback: "plain (str ''Slide '' @ str_of_nat k)"
proof -
  have "10 \<notin> set (str ''Slide '' @ str_of_nat k)"
    using str_of_nat_digits [of 10 k] by (auto simp: str_Slide)
  then have "md_lines (str ''Slide '' @ str_of_nat k) = [str ''Slide '' @ str_of_nat k]"
    by (rule md_lines_no_nl)
  then show ?thesis
    by (simp add: plain_def is_h2_def is_hr_def str_Slide str_h2 str_hr)
qed

lemma plain_heading_text: "plain_slide s \<Longrightarrow> plain (heading_text i s)"
  using plain_fallback [of "i + 1"]
  by (auto simp: plain_slide_def heading_text_def plain_def not_h2_empty not_hr_empty
           split: option.splits)

lemma section_counts:
  assumes "plain_slide s"
  shows "count_lines is_h2 (slide_section i s @ rest) = 1 + count_lines is_h2 rest"
    and "count_lines is_hr (slide_section i s @ rest) = 1 + count_lines is_hr rest"
proof -
  have b: "list_all plain (appended_blocks (title s) (shapes s))"
    using assms by (simp add: plain_slide_def)
  have z2: "sum_list (map (count_lines is_h2) (appended_blocks (title s) (shapes s))) = 0"
    using b by (simp add: list_all_iff plain_counts)
  have zr: "sum_list (map (count_lines is_hr) (appended_blocks (title s) (shapes s))) = 0"
    using b by (simp add: list_all_iff plain_counts)
  have h: "plain (heading_text i s)" using assms by (rule plain_heading_text)
  show "count_lines is_h2 (slide_section i s @ rest) = 1 + count_lines is_h2 rest"
    by (simp add: slide_section_def count_lines_para [of is_h2, OF not_h2_empty]
        count_lines_paras [of is_h2, OF not_h2_empty] heading_counts [OF h] rule_counts z2)
  show "count_lines is_hr (slide_section i s @ rest) = 1 + count_lines is_hr rest"
    by (simp add: slide_section_def count_lines_para [of is_hr, OF not_hr_empty]
        count_lines_paras [of is_hr, OF not_hr_empty] heading_counts [OF h] rule_counts zr)
qed

lemma sections_counts:
  "list_all plain_slide ss \<Longrightarrow>
   count_lines is_h2 (concat (map (\<lambda>(k, s). slide_section k s) (enumerate i ss))) = length ss \<and>
   count_lines is_hr (concat (map (\<lambda>(k, s). slide_section k s) (enumerate i ss))) = length ss"
  by (induction ss arbitrary: i)
     (simp_all add: section_counts count_lines_empty not_h2_empty not_hr_empty)

lemma document_counts:
  assumes "plain (basename (pptx_path c))" "list_all plain_slide prs"
  shows "count_h2 (document c prs) = length prs" and "count_hr (document c prs) = length prs"
  using sections_counts [OF assms(2), of 0]
  by (simp_all add: document_def header_def count_h2_def count_hr_def
      count_lines_para not_h2_empty not_hr_empty title_counts [OF assms(1)])

section \<open>The run\<close>

lemma slides_loop_progress_only:
  "slides_loop n i ss md = (evs, r) \<Longrightarrow> e \<in> set evs \<Longrightarrow> is_progress e"
proof (induction ss arbitrary: i md evs r)
  case Nil
  then show ?case by simp
next
  case (Cons s ss)
  then show ?case
    by (fastforce simp: is_progress_def split: sum.splits prod.splits)
qed

lemma is_progress_not_terminal: "is_progress e \<Longrightarrow> \<not> is_terminal e"
  by (cases e) (auto simp: is_progress_def is_terminal_def)

lemma slides_loop_no_terminal:
  "slides_loop n i ss md = (evs, r) \<Longrightarrow> filter is_terminal evs = []"
  by (auto simp: filter_empty_conv dest: slides_loop_progress_only is_progress_not_terminal)

lemma written_append: "written (a @ b) = written a @ written b"
  by (simp add: written_def)

lemma progress_values_append: "progress_values (a @ b) = progress_values a @ progress_values b"
  by (simp add: progress_values_def)

lemma written_progress: "\<forall>e\<in>set evs. is_progress e \<Longrightarrow> written evs = []"
  by (induction evs) (auto simp: written_def is_progress_def split: effect.splits)

lemma slides_loop_written: "slides_loop n i ss md = (evs, r) \<Longrightarrow> written evs = []"
  by (rule written_progress) (blast dest: slides_loop_progress_only)

lemma written_tail:
  "written [file_write p d, progress_signal x, finished_signal q] = [d]"
  "written [error_signal e] = []"
  by (simp_all add: written_def)

lemma header_eq: "str ''# '' @ basename (pptx_path c) @ [10, 10] = header c"
  by (simp add: header_def para_def)

lemma run_loop_completed:
  assumes "Presentation ev (pptx_path c) = Inr prs"
    and "slides_loop (length prs) 0 prs (header c) = (evs, Inr md)"
  shows "run ev c =
     evs @ (case open_write ev (output_path c) md of
              Some m \<Rightarrow> [error_signal (WriteError m)]
            | None \<Rightarrow> [file_write (output_path c) md, progress_signal 100,
                        finished_signal (output_path c)])"
  using assms by (simp add: run_def header_eq split: option.splits)

lemma run_loop_raised:
  assumes "Presentation ev (pptx_path c) = Inr prs"
    and "slides_loop (length prs) 0 prs (header c) = (evs, Inl e)"
  shows "run ev c = evs @ [error_signal e]"
  using assms by (simp add: run_def header_eq)

lemma loop_of_valid_deck:
  assumes "list_all readable_title prs"
  shows "\<exists>evs. slides_loop (length prs) 0 prs (header c) = (evs, Inr (document c prs))"
proof (cases "prs = []")
  case True
  then show ?thesis by (simp add: document_def)
next
  case False
  then have "length prs \<noteq> 0" by simp
  then obtain evs md where l: "slides_loop (length prs) 0 prs (header c) = (evs, Inr md)"
    using slides_loop_completes [OF _ assms] by blast
  then have "md = document c prs"
    by (simp add: document_def slides_loop_document)
  with l show ?thesis by blast
qed


section \<open>The properties\<close>

text \<open>
  C1 (as amended). Take a deck that \<open>Presentation\<close> opens and whose title placeholders
  all have text. The only document a run writes is \<open>document c prs\<close>: the heading
  \<open># \<close> with the base name of the source path and a blank line, then for each slide,
  in order, its \<open>## \<close> heading and a blank line, each of its blocks and a blank line,
  and \<open>---\<close> and a blank line, the last slide included; it is written when the
  destination takes it. When the base name, the titles and the blocks are plain, that is
  none of their own lines starts with \<open>## \<close> or is \<open>---\<close>, the document has exactly
  as many level-2 heading lines and as many \<open>---\<close> lines as the deck has slides.
\<close>

theorem document_structure:
  assumes "Presentation ev (pptx_path c) = Inr prs" and "list_all readable_title prs"
  shows "written (run ev c) =
           (if open_write ev (output_path c) (document c prs) = None then [document c prs] else []) \<and>
         (plain (basename (pptx_path c)) \<and> list_all plain_slide prs \<longrightarrow>
            count_h2 (document c prs) = length prs \<and> count_hr (document c prs) = length prs)"
proof -
  obtain evs where l: "slides_loop (length prs) 0 prs (header c) = (evs, Inr (document c prs))"
    using loop_of_valid_deck [OF assms(2)] by blast
  have "written (run ev c) =
           (if open_write ev (output_path c) (document c prs) = None then [document c prs] else [])"
    by (simp add: run_loop_completed [OF assms(1) l] written_append slides_loop_written [OF l]
          written_tail split: option.splits)
  then show ?thesis
    by (simp add: document_counts)
qed

text \<open>
  The deck of the round-trip scenario gives the document of the scenario, with three
  headings and three rules.
\<close>

theorem document_structure_witness:
  "Presentation (writable_env deck3) (pptx_path deck_pptx) = Inr deck3 \<and>
   list_all readable_title deck3 \<and> plain (basename (pptx_path deck_pptx)) \<and>
   list_all plain_slide deck3 \<and>
   written (run (writable_env deck3) deck_pptx) = [document deck_pptx deck3] \<and>
   count_h2 (document deck_pptx deck3) = 3 \<and> count_hr (document deck_pptx deck3) = 3 \<and>
   document deck_pptx deck3 =
     str ''# deck.pptx'' @ [10, 10] @
     str ''## Intro'' @ [10, 10] @ str ''Welcome'' @ [10, 10] @ str ''---'' @ [10, 10] @
     str ''## Slide 2'' @ [10, 10] @ str ''Point A'' @ [10, 10] @ str ''Point B'' @ [10, 10] @
     str ''---'' @ [10, 10] @
     str ''## Conclusion'' @ [10, 10] @ str ''---'' @ [10, 10]"
proof -
  have h1: "Presentation (writable_env deck3) (pptx_path deck_pptx) = Inr deck3"
    by (simp add: writable_env_def)
  have h2: "list_all readable_title deck3" by code_simp
  have h3: "plain (basename (pptx_path deck_pptx))" by code_simp
  have h4: "list_all plain_slide deck3" by code_simp
  have w: "open_write (writable_env deck3) (output_path deck_pptx) (document deck_pptx deck3) = None"
    by (simp add: writable_env_def)
  have d: "document deck_pptx deck3 =
     str ''# deck.pptx'' @ [10, 10] @
     str ''## Intro'' @ [10, 10] @ str ''Welcome'' @ [10, 10] @ str ''---'' @ [10, 10] @
     str ''## Slide 2'' @ [10, 10] @ str ''Point A'' @ [10, 10] @ str ''Point B'' @ [10, 10] @
     str ''---'' @ [10, 10] @
     str ''## Conclusion'' @ [10, 10] @ str ''---'' @ [10, 10]"
    by code_simp
  have l: "length deck3 = 3" by (simp add: deck3_def)
  show ?thesis
    using document_structure [OF h1 h2] h1 h2 h3 h4 w d l by simp
qed

text \<open>
  The claim as stated fails on a deck with one slide whose text box holds the line
  \<open>---\<close>: the document written has two such lines.
\<close>

theorem rule_count_counterexample:
  "list_all readable_title rule_deck \<and> length rule_deck = 1 \<and>
   map count_hr (written (run (writable_env rule_deck) deck_pptx)) = [2]"
  by code_simp

text \<open>
  C7. A run ends with exactly one terminal result, \<open>finished_signal\<close> or
  \<open>error_signal\<close>: one effect of the trace is terminal, and it is the last.
\<close>

theorem run_one_terminal:
  "length (filter is_terminal (run ev c)) = 1 \<and> is_terminal (last (run ev c)) \<and>
   filter is_terminal (butlast (run ev c)) = []"
proof (cases "Presentation ev (pptx_path c)")
  case (Inl m)
  then show ?thesis by (simp add: run_def is_terminal_def)
next
  case (Inr prs)
  obtain evs r where l: "slides_loop (length prs) 0 prs (header c) = (evs, r)"
    by (cases "slides_loop (length prs) 0 prs (header c)")
  have nt: "filter is_terminal evs = []"
    using slides_loop_no_terminal [OF l] .
  show ?thesis
  proof (cases r)
    case (Inl e)
    then show ?thesis
      using nt by (simp add: run_loop_raised [OF Inr l [unfolded Inl]] is_terminal_def butlast_append)
  next
    case md: (Inr md)
    then show ?thesis
      using nt
      by (simp add: run_loop_completed [OF Inr l [unfolded md]] is_terminal_def butlast_append
            split: option.splits)
  qed
qed

theorem run_one_terminal_witness:
  "length (filter is_terminal (run (readonly_env deck3) deck_pptx)) = 1 \<and>
   is_terminal (last (run (readonly_env deck3) deck_pptx)) \<and>
   filter is_terminal (butlast (run (readonly_env deck3) deck_pptx)) = []"
  by (rule run_one_terminal)

end
